theory Spec2Isabelle
  imports Complex_Main "HOL-Library.Word" "HOL-Library.Signed_Division"
begin

unbundle bit_operations_syntax

section \<open>The hash ring of \<^verbatim>\<open>source/common/upstream/ring_hash_lb.cc\<close>\<close>

subsection \<open>Data model\<close>

type_synonym u64 = "64 word"
type_synonym u32 = "32 word"

text \<open>
  \<^verbatim>\<open>RingEntry\<close> is the pair \<^verbatim>\<open>{hash_, host_}\<close> pushed by \<^verbatim>\<open>ring_.push_back({hash, host})\<close>.
  The host handle is opaque to the ring, hence the type parameter.
\<close>

record 'h RingEntry =
  hash :: u64
  host :: 'h

text \<open>
  The members of \<^verbatim>\<open>RingHashLoadBalancer::Ring\<close> the two functions touch. \<^verbatim>\<open>ring_shard_\<close>
  holds indices into \<^verbatim>\<open>ring_\<close>; \<^verbatim>\<open>rshift_to_shard\<close> is the shift amount. Their declarations
  are in the header, which is not part of the sources at hand, so both are natural numbers
  here (the values are indices and a shift count; no claim depends on their width).
\<close>

record 'h Ring =
  ring :: "'h RingEntry list"
  ring_shard :: "nat list"
  rshift_to_shard :: nat

text \<open>
  What C++ leaves undefined is a value of the model: a \<^verbatim>\<open>std::vector\<close> read past the end,
  and a shift of a 64-bit value by an amount outside \<open>0..63\<close>.
\<close>

datatype fault = OutOfBounds | BadShift

subsection \<open>\<^verbatim>\<open>Ring::chooseHost\<close>\<close>

text \<open>
  Line 101: \<^verbatim>\<open>(h >> (rshift_to_shard - 1)) >> 1\<close>.
\<close>

definition shard_index_plain :: "nat \<Rightarrow> u64 \<Rightarrow> u64" where
  "shard_index_plain r h = drop_bit 1 (drop_bit (r - 1) h)"

text \<open>
  Line 107, taken when bit 63 of \<open>h\<close> is set:
  \<^verbatim>\<open>(((h & 0x7FFFFFFFFFFFFFFF) >> 1) | 0x4000000000000000) >> (rshift_to_shard - 1)\<close>.
\<close>

definition shard_index_msb :: "nat \<Rightarrow> u64 \<Rightarrow> u64" where
  "shard_index_msb r h =
     drop_bit (r - 1) (drop_bit 1 (h AND 0x7FFFFFFFFFFFFFFF) OR 0x4000000000000000)"

text \<open>Lines 101 to 108: the plain value, overwritten when \<^verbatim>\<open>h & 0x8000000000000000\<close> is not 0.\<close>

definition shard_index :: "nat \<Rightarrow> u64 \<Rightarrow> u64" where
  "shard_index r h =
     (let h_msb = h AND 0x8000000000000000
      in if h_msb \<noteq> 0 then shard_index_msb r h else shard_index_plain r h)"

text \<open>
  Lines 97 to 118: the first window \<^verbatim>\<open>(lowp, highp)\<close> of the search. With the runtime feature
  \<^verbatim>\<open>shard_ringhash\<close> on, the two bounds are read from \<^verbatim>\<open>ring_shard_\<close> at \<^verbatim>\<open>shard_index\<close> and
  \<^verbatim>\<open>shard_index + 1\<close> (an unsigned 64-bit addition); neither read is checked by the code.
\<close>

definition window :: "bool \<Rightarrow> 'h Ring \<Rightarrow> u64 \<Rightarrow> fault + int \<times> int" where
  "window shard_ringhash r h =
     (if shard_ringhash then
        (if rshift_to_shard r < 1 \<or> 64 < rshift_to_shard r then Inl BadShift
         else
           let si = shard_index (rshift_to_shard r) h
           in if unat si < length (ring_shard r) \<and> unat (si + 1) < length (ring_shard r)
              then Inr (int (ring_shard r ! unat si), int (ring_shard r ! unat (si + 1)))
              else Inl OutOfBounds)
      else Inr (0, int (length (ring r))))"

text \<open>
  Lines 120 to 146, the \<^verbatim>\<open>while (true)\<close> loop. \<^verbatim>\<open>lowp\<close>, \<^verbatim>\<open>midp\<close> and \<^verbatim>\<open>highp\<close> are \<^verbatim>\<open>int64_t\<close>;
  they stay between \<open>-1\<close> and the ring size plus one, far from the ends of the type, so they
  are integers here. \<^verbatim>\<open>/\<close> on \<^verbatim>\<open>int64_t\<close> truncates towards zero, which is \<open>sdiv\<close>. The result
  is the value of \<^verbatim>\<open>midp\<close> when the loop is left.
\<close>

function search :: "'h RingEntry list \<Rightarrow> u64 \<Rightarrow> int \<Rightarrow> int \<Rightarrow> fault + int" where
  "search entries h lowp highp =
     (let midp = (lowp + highp) sdiv 2 in
      if midp = int (length entries) then Inr 0
      else if midp < 0 \<or> int (length entries) < midp then Inl OutOfBounds
      else
        let midval = hash (entries ! nat midp);
            midval1 = (if midp = 0 then 0 else hash (entries ! nat (midp - 1)))
        in if h \<le> midval \<and> h > midval1 then Inr midp
           else
             let lowp' = (if midval < h then midp + 1 else lowp);
                 highp' = (if midval < h then highp else midp - 1)
             in if lowp' > highp' then Inr 0 else search entries h lowp' highp')"
  by pat_completeness auto
termination
proof (relation "measure (\<lambda>(entries, h, lowp, highp). nat (highp - lowp + 1))", goal_cases)
  case 1
  show ?case by simp
next
  case (2 entries h lowp highp midp midval midval1 lowp' highp')
  show ?case
  proof (cases "lowp \<le> highp")
    case True
    then have "lowp \<le> (lowp + highp) sdiv 2 \<and> (lowp + highp) sdiv 2 \<le> highp"
      by (auto simp: signed_divide_int_def sgn_if)
    with 2 show ?thesis
      by (auto split: if_splits)
  next
    case False
    then have "highp \<le> (lowp + highp) sdiv 2 \<and> (lowp + highp) sdiv 2 \<le> lowp"
      by (auto simp: signed_divide_int_def sgn_if)
    with 2 show ?thesis
      by (auto split: if_splits)
  qed
qed

declare search.simps [simp del]

text \<open>The index \<^verbatim>\<open>midp\<close> with which the loop is left, for attempt 0.\<close>

definition chooseIndex :: "bool \<Rightarrow> 'h Ring \<Rightarrow> u64 \<Rightarrow> fault + int" where
  "chooseIndex shard_ringhash r h =
     (case window shard_ringhash r h of
        Inl e \<Rightarrow> Inl e
      | Inr (lowp, highp) \<Rightarrow> search (ring r) h lowp highp)"

text \<open>
  \<^verbatim>\<open>chooseHost\<close>, lines 84 to 156. \<^verbatim>\<open>nullptr\<close> is \<open>None\<close>. In line 152 \<^verbatim>\<open>midp + attempt\<close> is an
  \<^verbatim>\<open>int64_t\<close> sum of two non-negative values and \<^verbatim>\<open>%\<close> is taken with the unsigned ring size.
\<close>

definition chooseHost :: "bool \<Rightarrow> 'h Ring \<Rightarrow> u64 \<Rightarrow> u32 \<Rightarrow> fault + 'h option" where
  "chooseHost shard_ringhash r h attempt =
     (if ring r = [] then Inr None
      else
        case chooseIndex shard_ringhash r h of
          Inl e \<Rightarrow> Inl e
        | Inr midp \<Rightarrow>
            let midp' = (if attempt > 0 then (midp + uint attempt) mod int (length (ring r))
                         else midp)
            in Inr (Some (host (ring r ! nat midp'))))"

subsection \<open>The type \<^verbatim>\<open>double\<close>\<close>

text \<open>
  The constructor computes the number of hashes per host in \<^verbatim>\<open>double\<close>. A finite \<^verbatim>\<open>double\<close> is the
  rational number it denotes, and every arithmetic operation is the exact operation followed
  by rounding to the nearest number with a 53-bit significand, ties to the even significand
  (IEEE 754 binary64, the default rounding mode, one rounding per operation). Exponent range,
  infinities and NaN are not modelled: the values met here are weights in \<open>(0, 1]\<close> and hash
  counts, far from both ends of the exponent range.

  \<open>bitlen_nat n\<close> is the number of binary digits of \<open>n\<close>; \<open>binade x\<close> is the exponent \<open>e\<close>
  with \<open>2 ^ e \<le> \<bar>x\<bar> < 2 ^ (e + 1)\<close>.
\<close>

type_synonym double = rat

fun bitlen_nat :: "nat \<Rightarrow> nat" where
  "bitlen_nat n = (if n = 0 then 0 else Suc (bitlen_nat (n div 2)))"

declare bitlen_nat.simps [simp del]

definition pow2 :: "int \<Rightarrow> rat" where
  "pow2 e = (if 0 \<le> e then 2 ^ nat e else 1 / 2 ^ nat (- e))"

definition binade :: "rat \<Rightarrow> int" where
  "binade x =
     (if 1 \<le> \<bar>x\<bar> then int (bitlen_nat (nat \<lfloor>\<bar>x\<bar>\<rfloor>)) - 1
      else - int (bitlen_nat (nat (\<lceil>1 / \<bar>x\<bar>\<rceil> - 1))))"

definition round_half_even :: "rat \<Rightarrow> int" where
  "round_half_even x =
     (let f = \<lfloor>x\<rfloor>; d = x - of_int f
      in if d < 1 / 2 then f else if 1 / 2 < d then f + 1 else if even f then f else f + 1)"

text \<open>Rounding of an exact result to \<^verbatim>\<open>double\<close>: the unit in the last place of \<open>x\<close> is \<open>2 ^ (binade x - 52)\<close>.\<close>

definition fl64 :: "rat \<Rightarrow> double" where
  "fl64 x =
     (if x = 0 then 0
      else let u = pow2 (binade x - 52) in of_int (round_half_even (x / u)) * u)"

subsection \<open>The constructor \<^verbatim>\<open>Ring::Ring\<close>\<close>

datatype HashFunction = XX_HASH | MURMUR_HASH_2

text \<open>The three gauges of \<^verbatim>\<open>RingHashLoadBalancerStats\<close>; a build returns the list of its \<^verbatim>\<open>set\<close> calls.\<close>

datatype gauge = stat_size | stat_min_hashes_per_host | stat_max_hashes_per_host

text \<open>
  What the constructor uses and this file does not define: \<^verbatim>\<open>hashKey\<close> (the key of a host, by
  the flag \<^verbatim>\<open>use_hostname_for_hashing\<close>), the two hash functions \<^verbatim>\<open>HashUtil::xxHash64\<close> and
  \<^verbatim>\<open>MurmurHash::murmurHash2\<close> (with its seed), the runtime feature
  \<^verbatim>\<open>envoy.reloadable_features.shard_ringhash\<close>, and the value \<^verbatim>\<open>rshift_to_shard\<close> has before the
  constructor adds \<^verbatim>\<open>msb\<close> to it (its initialiser is in the header). They are parameters.
\<close>

record 'h externals =
  hashKey :: "'h \<Rightarrow> bool \<Rightarrow> string"
  xxHash64 :: "string \<Rightarrow> u64"
  murmurHash2 :: "string \<Rightarrow> u64"
  shard_ringhash :: bool
  rshift_initial :: nat

text \<open>\<^verbatim>\<open>absl::StrCat("", i)\<close>: the decimal digits of \<open>i\<close>.\<close>

function decimal :: "nat \<Rightarrow> string" where
  "decimal n =
     (if n < 10 then [''0123456789'' ! n]
      else decimal (n div 10) @ [''0123456789'' ! (n mod 10)])"
  by pat_completeness auto
termination
  by (relation "measure id") auto

declare decimal.simps [simp del]

text \<open>
  Lines 219 to 237, the inner loop \<^verbatim>\<open>while (current_hashes < target_hashes)\<close>: each round hashes
  the key \<^verbatim>\<open>key_to_hash\<close>, \<^verbatim>\<open>'_'\<close> and the digits of \<open>i\<close>, pushes the entry and increments \<open>i\<close> and
  \<^verbatim>\<open>current_hashes\<close>. \<^verbatim>\<open>++current_hashes\<close> is a \<^verbatim>\<open>double\<close> addition, which stops changing the value
  at \<open>2 ^ 53\<close>, so the loop is not total: not returning is \<open>None\<close>. The result is \<open>i\<close>,
  \<^verbatim>\<open>current_hashes\<close> and \<^verbatim>\<open>ring_\<close> after the loop.
\<close>

partial_function (option) add_hashes ::
  "(string \<Rightarrow> u64) \<Rightarrow> string \<Rightarrow> 'h \<Rightarrow> double \<Rightarrow> nat \<Rightarrow> double \<Rightarrow> 'h RingEntry list
     \<Rightarrow> (nat \<times> double \<times> 'h RingEntry list) option" where
  "add_hashes hashf key_to_hash h target_hashes i current_hashes rng =
     (if current_hashes < target_hashes then
        add_hashes hashf key_to_hash h target_hashes (i + 1) (fl64 (current_hashes + 1))
          (rng @ [\<lparr>hash = hashf (key_to_hash @ ''_'' @ decimal i), host = h\<rparr>])
      else Some (i, current_hashes, rng))"

text \<open>The variables of lines 203 to 206 and \<^verbatim>\<open>ring_\<close> while it is filled.\<close>

record 'h build_state =
  entries :: "'h RingEntry list"
  current_hashes :: double
  target_hashes :: double
  min_hashes_per_host :: nat
  max_hashes_per_host :: nat

text \<open>
  Lines 207 to 240, the loop over \<^verbatim>\<open>normalized_host_weights\<close>:
  \<^verbatim>\<open>target_hashes += scale * entry.second\<close> is a rounded product and a rounded sum.
  (\<^verbatim>\<open>ASSERT(!key_to_hash.empty())\<close> is compiled out of release builds and has no effect.)
\<close>

fun populate ::
  "(string \<Rightarrow> u64) \<Rightarrow> ('h \<Rightarrow> string) \<Rightarrow> double \<Rightarrow> ('h \<times> double) list \<Rightarrow> 'h build_state
     \<Rightarrow> 'h build_state option" where
  "populate hashf keyf scale [] st = Some st"
| "populate hashf keyf scale ((h, weight) # rest) st =
     (let target = fl64 (target_hashes st + fl64 (scale * weight))
      in case add_hashes hashf (keyf h) h target 0 (current_hashes st) (entries st) of
           None \<Rightarrow> None
         | Some (i, current, rng) \<Rightarrow>
             populate hashf keyf scale rest
               \<lparr>entries = rng, current_hashes = current, target_hashes = target,
                min_hashes_per_host = min i (min_hashes_per_host st),
                max_hashes_per_host = max i (max_hashes_per_host st)\<rparr>)"

text \<open>Lines 256 to 262: \<^verbatim>\<open>while (n != 0) { n = n / 2; msb++; }\<close>.\<close>

function msb_loop :: "u64 \<Rightarrow> nat \<Rightarrow> nat" where
  "msb_loop n msb = (if n \<noteq> 0 then msb_loop (n div 2) (msb + 1) else msb)"
  by pat_completeness auto
termination
  by (relation "measure (\<lambda>(n, msb). unat n)") (auto simp: unat_div word_neq_0_conv unat_gt_0)

declare msb_loop.simps [simp del]

text \<open>
  Lines 281 to 291, one round of the loop over the sorted ring; the state is \<^verbatim>\<open>ring_shard_\<close>,
  \<^verbatim>\<open>ring_index\<close> and \<^verbatim>\<open>prev_shard\<close>.
\<close>

definition shard_step ::
  "nat \<Rightarrow> nat list \<times> nat \<times> u64 \<Rightarrow> 'h RingEntry \<Rightarrow> nat list \<times> nat \<times> u64" where
  "shard_step r st entry =
     (case st of (shards, ring_index, prev_shard) \<Rightarrow>
        let current_shard = shard_index_plain r (hash entry)
        in if current_shard \<noteq> prev_shard
           then (shards @ [ring_index], ring_index + 1, current_shard)
           else (shards, ring_index + 1, prev_shard))"

text \<open>
  Lines 252 to 296, the sharding block, from the sorted ring and \<^verbatim>\<open>ring_size\<close>; the result is
  \<^verbatim>\<open>ring_shard_\<close> and the new \<^verbatim>\<open>rshift_to_shard\<close>. \<^verbatim>\<open>ring_[0]\<close> is read before the test
  \<^verbatim>\<open>!ring_.empty()\<close> of line 276. After that test \<^verbatim>\<open>ring_index\<close> is 1, and the loop starts at
  the first entry of the ring with this value.
\<close>

definition build_shards :: "nat \<Rightarrow> 'h RingEntry list \<Rightarrow> nat \<Rightarrow> fault + nat list \<times> nat" where
  "build_shards rshift rng ring_size =
     (if rng = [] then Inl OutOfBounds
      else
        let n = hash (rng ! 0);
            msb = msb_loop (n div 2) 0;
            r = (if rshift + msb > 64 then 64 else rshift + msb)
        in if r < 1 then Inl BadShift
           else
             let start = (if rng \<noteq> [] then ([0], 1, 0) else ([], 0, 0));
                 (shards, ring_index, prev_shard) = foldl (shard_step r) start rng
             in Inr (shards @ [ring_size], r))"

text \<open>Lines 227 to 230: the hash of a key, by \<^verbatim>\<open>hash_function\<close>.\<close>

definition hash_with :: "'h externals \<Rightarrow> HashFunction \<Rightarrow> string \<Rightarrow> u64" where
  "hash_with ext hash_function hash_key =
     (if hash_function = MURMUR_HASH_2 then murmurHash2 ext hash_key else xxHash64 ext hash_key)"

text \<open>Lines 176 to 178: \<^verbatim>\<open>scale\<close>, the number of hashes aimed at for the whole ring.\<close>

definition ring_scale :: "double \<Rightarrow> nat \<Rightarrow> nat \<Rightarrow> double" where
  "ring_scale min_normalized_weight min_ring_size max_ring_size =
     min (fl64 (of_int \<lceil>fl64 (min_normalized_weight * fl64 (of_nat min_ring_size))\<rceil>
                / min_normalized_weight))
         (fl64 (of_nat max_ring_size))"

text \<open>
  The constructor, lines 159 to 301. The result is \<open>None\<close> when it does not return, a fault
  when it leaves defined behaviour, and otherwise the ring with the gauge updates made.
  \<^verbatim>\<open>min_ring_size\<close> and \<^verbatim>\<open>max_ring_size\<close> are \<^verbatim>\<open>uint64_t\<close> and only converted to \<^verbatim>\<open>double\<close>.
  \<^verbatim>\<open>min_normalized_weight\<close> is positive by the caller's contract (the division by it is
  otherwise outside the numbers modelled).
  \<^verbatim>\<open>std::sort\<close> leaves the order of entries with equal hashes open; \<open>sort_key\<close> is one such
  order, and nothing below depends on which.
\<close>

definition Ring_ctor ::
  "'h externals \<Rightarrow> ('h \<times> double) list \<Rightarrow> double \<Rightarrow> nat \<Rightarrow> nat \<Rightarrow> HashFunction \<Rightarrow> bool
     \<Rightarrow> (fault + 'h Ring \<times> (gauge \<times> nat) list) option" where
  "Ring_ctor ext normalized_host_weights min_normalized_weight min_ring_size max_ring_size
       hash_function use_hostname_for_hashing =
     (if normalized_host_weights = [] then
        Some (Inr (\<lparr>ring = [], ring_shard = [], rshift_to_shard = rshift_initial ext\<rparr>, []))
      else
        let scale = ring_scale min_normalized_weight min_ring_size max_ring_size;
            ring_size = nat \<lceil>scale\<rceil>
        in case populate (hash_with ext hash_function)
                  (\<lambda>h. hashKey ext h use_hostname_for_hashing) scale
                  normalized_host_weights
                  \<lparr>entries = [], current_hashes = 0, target_hashes = 0,
                   min_hashes_per_host = ring_size, max_hashes_per_host = 0\<rparr> of
             None \<Rightarrow> None
           | Some st \<Rightarrow>
               let sorted_ring = sort_key hash (entries st);
                   stats = [(stat_size, ring_size),
                            (stat_min_hashes_per_host, min_hashes_per_host st),
                            (stat_max_hashes_per_host, max_hashes_per_host st)]
               in if shard_ringhash ext then
                    (case build_shards (rshift_initial ext) sorted_ring ring_size of
                       Inl e \<Rightarrow> Some (Inl e)
                     | Inr (shards, r) \<Rightarrow>
                         Some (Inr (\<lparr>ring = sorted_ring, ring_shard = shards,
                                     rshift_to_shard = r\<rparr>, stats)))
                  else
                    Some (Inr (\<lparr>ring = sorted_ring, ring_shard = [],
                                rshift_to_shard = rshift_initial ext\<rparr>, stats)))"

section \<open>The contract of the lookup\<close>

text \<open>
  The position the contract of the lookup names: the number of entries at the front of the
  ring whose hash is below \<open>h\<close>, that is the first index with \<open>h \<le> hash\<close> (the ring size when
  there is none), and that index wrapped to 0 at the top.
\<close>

definition first_ge :: "'h RingEntry list \<Rightarrow> u64 \<Rightarrow> nat" where
  "first_ge es h = length (takeWhile (\<lambda>e. hash e < h) es)"

definition clockwise_index :: "'h RingEntry list \<Rightarrow> u64 \<Rightarrow> nat" where
  "clockwise_index es h = (if first_ge es h = length es then 0 else first_ge es h)"

section \<open>Measures and inputs\<close>

text \<open>The number of ring entries of a host, and the sum of weights as a loop in \<^verbatim>\<open>double\<close> adds them.\<close>

definition hashes_of :: "'h \<Rightarrow> 'h Ring \<Rightarrow> nat" where
  "hashes_of h r = length (filter (\<lambda>e. host e = h) (ring r))"

definition double_sum :: "double list \<Rightarrow> double" where
  "double_sum ws = foldl (\<lambda>s w. fl64 (s + w)) 0 ws"

text \<open>The ring of the lookup scenarios of the specification: four entries with hashes 10, 20, 30, 40.\<close>

definition example_ring :: "string Ring" where
  "example_ring =
     \<lparr>ring = [\<lparr>hash = 10, host = ''A''\<rparr>, \<lparr>hash = 20, host = ''B''\<rparr>,
              \<lparr>hash = 30, host = ''C''\<rparr>, \<lparr>hash = 40, host = ''D''\<rparr>],
      ring_shard = [], rshift_to_shard = 9\<rparr>"

text \<open>
  Five hosts of equal weight: each normalized weight is the \<^verbatim>\<open>double\<close> nearest to 1/5, and
  their sum in \<^verbatim>\<open>double\<close> is 1.
\<close>

definition five_equal_hosts :: "(string \<times> double) list" where
  "five_equal_hosts =
     [(''A'', fl64 (1 / 5)), (''B'', fl64 (1 / 5)), (''C'', fl64 (1 / 5)), (''D'', fl64 (1 / 5)),
      (''E'', fl64 (1 / 5))]"

text \<open>Three hosts whose weights are doubles with the exact sum 1.\<close>

definition three_exact_hosts :: "(string \<times> double) list" where
  "three_exact_hosts =
     [(''A'', 6878715294421090 / 9007199254740992), (''B'', 365317832953221 / 9007199254740992),
      (''C'', 1763166127366681 / 9007199254740992)]"

text \<open>Four hosts with the weights 1, 7, 1 and 3 normalized by their sum 12.\<close>

definition twelfths_hosts :: "(string \<times> double) list" where
  "twelfths_hosts =
     [(''A'', fl64 (1 / 12)), (''B'', fl64 (7 / 12)), (''C'', fl64 (1 / 12)), (''D'', fl64 (1 / 4))]"

text \<open>Five hosts whose weights are doubles with the exact sum 1, the last one 1/4.\<close>

definition five_exact_hosts :: "(string \<times> double) list" where
  "five_exact_hosts =
     [(''A'', 10269110643243016 / 18014398509481984), (''B'', 770784376640527 / 18014398509481984),
      (''C'', 1974282578975211 / 18014398509481984), (''D'', 496621283252734 / 18014398509481984),
      (''E'', 1 / 4)]"

text \<open>
  Two hosts with the host names \<^verbatim>\<open>cx\<close> and \<^verbatim>\<open>a\<close>, hashed by host name, of weight 1/2 each, with
  \<^verbatim>\<open>min_ring_size = max_ring_size = 2\<close>: one hash per host, of the keys \<^verbatim>\<open>cx_0\<close> and \<^verbatim>\<open>a_0\<close>. The
  hash function is a parameter of the constructor; the two values below are the xxHash64
  (seed 0) of these two keys. \<^verbatim>\<open>rshift_to_shard\<close> starts at 9, the value the specification fixes.
\<close>

definition two_hosts :: "(string \<times> double) list" where
  "two_hosts = [(''cx'', 1 / 2), (''a'', 1 / 2)]"

definition shard_ext :: "string externals" where
  "shard_ext =
     \<lparr>hashKey = (\<lambda>h use_hostname. h),
      xxHash64 = (\<lambda>key. if key = ''cx_0'' then 0x3FD63E2E8C62D9
                         else if key = ''a_0'' then 0x6D2CEBF82CDBF7AC else 0),
      murmurHash2 = (\<lambda>key. 0),
      shard_ringhash = True,
      rshift_initial = 9\<rparr>"

definition two_shard_ring :: "string Ring" where
  "two_shard_ring =
     \<lparr>ring = [\<lparr>hash = 0x3FD63E2E8C62D9, host = ''cx''\<rparr>,
              \<lparr>hash = 0x6D2CEBF82CDBF7AC, host = ''a''\<rparr>],
      ring_shard = [0, 2, 2],
      rshift_to_shard = 62\<rparr>"

section \<open>Properties of the lookup\<close>

subsection \<open>The shard index is a right shift\<close>

lemma msb_test_gen:
  fixes h :: u64
  shows "(h AND push_bit k 1 \<noteq> 0) = bit h k"
proof -
  have "h AND push_bit k 1 = push_bit k (of_bool (bit h k))"
    by (rule bit_eqI) (auto simp: bit_simps)
  moreover have "bit h k \<Longrightarrow> k < 64" by (auto dest: bit_imp_le_length)
  ultimately show ?thesis by (auto simp: push_bit_eq_mult)
qed

lemma halve_msb_gen:
  fixes h :: "'a::len word"
  assumes "bit h (Suc k)" and len: "LENGTH('a) = Suc (Suc k)"
  shows "drop_bit 1 (h AND mask (Suc k)) OR push_bit k 1 = drop_bit 1 h"
proof (rule bit_eqI)
  fix n :: nat
  assume "possible_bit TYPE('a word) n"
  then have n: "n < Suc (Suc k)" by (simp add: possible_bit_def len)
  have hi: "\<not> bit h (Suc n)" if "k < n"
    using that len by (auto dest: bit_imp_le_length)
  consider "n < k" | "n = k" | "k < n" by linarith
  then show "bit (drop_bit 1 (h AND mask (Suc k)) OR push_bit k 1) n = bit (drop_bit 1 h) n"
  proof cases
    case 1
    then show ?thesis using len by (auto simp: bit_simps)
  next
    case 2
    then show ?thesis using assms(1) len by (auto simp: bit_simps)
  next
    case 3
    then show ?thesis using hi len by (auto simp: bit_simps)
  qed
qed

lemma msb_test: "(h AND (0x8000000000000000 :: u64) \<noteq> 0) = bit h 63"
  using msb_test_gen [of h 63] by simp

lemma halve_msb:
  fixes h :: u64
  assumes "bit h 63"
  shows "drop_bit 1 (h AND 0x7FFFFFFFFFFFFFFF) OR 0x4000000000000000 = drop_bit 1 h"
  using halve_msb_gen [of h 62] assms by (simp add: mask_eq_exp_minus_1)

lemma shard_index_plain_shift: "1 \<le> r \<Longrightarrow> shard_index_plain r h = drop_bit r h"
  by (simp add: shard_index_plain_def drop_bit_drop_bit)

lemma shard_index_msb_shift:
  assumes "1 \<le> r" and "bit h 63"
  shows "shard_index_msb r h = drop_bit r h"
proof -
  have "shard_index_msb r h = drop_bit (r - 1) (drop_bit 1 h)"
    unfolding shard_index_msb_def by (simp only: halve_msb [OF assms(2)])
  then show ?thesis using assms(1) by (simp add: drop_bit_drop_bit)
qed

lemma shard_index_shift: "1 \<le> r \<Longrightarrow> shard_index r h = drop_bit r h"
  by (simp add: shard_index_def Let_def msb_test shard_index_plain_shift shard_index_msb_shift)

text \<open>
  Claim C10. For every 64-bit hash \<open>h\<close> and every shift amount \<open>r\<close> from 1 to 64, the shard index
  of \<^verbatim>\<open>chooseHost\<close> is \<open>h\<close> shifted right by \<open>r\<close> on both branches: the value computed when bit
  63 of \<open>h\<close> is set equals the plain one, so the branch never changes the result.
\<close>

theorem shard_index_branches_agree:
  "1 \<le> r \<and> r \<le> 64 \<longrightarrow>
     shard_index_plain r h = drop_bit r h \<and>
     (bit h 63 \<longrightarrow> shard_index_msb r h = shard_index_plain r h) \<and>
     shard_index r h = drop_bit r h"
  by (simp add: shard_index_plain_shift shard_index_msb_shift shard_index_shift)

theorem shard_index_branches_agree_witness:
  "(1::nat) \<le> 64 \<and> (64::nat) \<le> 64 \<and> bit (0xFFFFFFFFFFFFFFFF :: u64) 63 \<and>
   shard_index_plain 64 0xFFFFFFFFFFFFFFFF = 0 \<and>
   shard_index_msb 64 0xFFFFFFFFFFFFFFFF = shard_index_plain 64 0xFFFFFFFFFFFFFFFF \<and>
   shard_index 64 0xFFFFFFFFFFFFFFFF = 0 \<and>
   shard_index 9 0x8000000000000200 = 0x40000000000001"
  using shard_index_branches_agree [of 64 "0xFFFFFFFFFFFFFFFF"]
    shard_index_branches_agree [of 9 "0x8000000000000200"]
  by (simp add: bit_numeral_word_iff drop_bit_eq_div)

subsection \<open>The binary search\<close>

lemma midp_between:
  fixes lowp highp :: int
  assumes "lowp \<le> highp"
  shows "lowp \<le> (lowp + highp) sdiv 2" and "(lowp + highp) sdiv 2 \<le> highp"
  using assms by (auto simp: signed_divide_int_def sgn_if)

lemma midp_crossed:
  fixes lowp highp :: int
  assumes "highp < lowp"
  shows "highp \<le> (lowp + highp) sdiv 2" and "(lowp + highp) sdiv 2 \<le> lowp"
  using assms by (auto simp: signed_divide_int_def sgn_if)

lemma first_ge_le: "first_ge es h \<le> length es"
  by (simp add: first_ge_def length_takeWhile_le)

lemma first_ge_below: "k < first_ge es h \<Longrightarrow> hash (es ! k) < h"
  unfolding first_ge_def using nth_mem [of k "takeWhile (\<lambda>e. hash e < h) es"]
  by (auto simp: takeWhile_nth dest: set_takeWhileD)

lemma first_ge_at: "first_ge es h < length es \<Longrightarrow> h \<le> hash (es ! first_ge es h)"
  unfolding first_ge_def using nth_length_takeWhile [of "\<lambda>e. hash e < h" es] by auto

lemma first_ge_above:
  assumes "sorted (map hash es)" "k < length es" "first_ge es h \<le> k"
  shows "h \<le> hash (es ! k)"
proof -
  from assms have lt: "first_ge es h < length es" by simp
  have "hash (es ! first_ge es h) \<le> hash (es ! k)"
    using sorted_nth_mono [OF assms(1), of "first_ge es h" k] assms lt by simp
  with first_ge_at [OF lt] show ?thesis by simp
qed

lemma midp_top:
  fixes lowp highp :: int
  assumes "0 \<le> lowp" "lowp \<le> highp" "(lowp + highp) sdiv 2 = highp"
  shows "lowp = highp"
  using assms by (auto simp: signed_divide_int_def sgn_if split: if_splits)

text \<open>One round of the loop, with the names of the source.\<close>

lemma search_unfold:
  fixes es :: "'h RingEntry list"
  defines "n \<equiv> int (length es)"
  assumes "midp = (lowp + highp) sdiv 2"
    and "midval = hash (es ! nat midp)"
    and "midval1 = (if midp = 0 then 0 else hash (es ! nat (midp - 1)))"
    and "lowp' = (if midval < h then midp + 1 else lowp)"
    and "highp' = (if midval < h then highp else midp - 1)"
  shows "search es h lowp highp =
    (if midp = n then Inr 0
     else if midp < 0 \<or> n < midp then Inl OutOfBounds
     else if h \<le> midval \<and> h > midval1 then Inr midp
     else if lowp' > highp' then Inr 0 else search es h lowp' highp')"
  unfolding assms by (subst search.simps) (simp only: Let_def)

text \<open>
  On a sorted ring, for \<open>h \<noteq> 0\<close>, a window that contains the first index with \<open>h \<le> hash\<close>
  makes the loop stop at that index, wrapped.
\<close>

lemma search_finds:
  fixes es :: "'h RingEntry list"
  assumes "sorted (map hash es)" and "h \<noteq> 0"
    and "0 \<le> lowp" and "highp \<le> int (length es)"
    and "lowp \<le> int (first_ge es h)" and "int (first_ge es h) \<le> highp"
  shows "search es h lowp highp = Inr (int (clockwise_index es h))"
  using assms(3-)
proof (induction "nat (highp - lowp + 1)" arbitrary: lowp highp rule: less_induct)
  case less
  note pr = less.prems
  define P where "P = first_ge es h"
  define midp where "midp = (lowp + highp) sdiv 2"
  define midval where "midval = hash (es ! nat midp)"
  define midval1 where "midval1 = (if midp = 0 then 0 else hash (es ! nat (midp - 1)))"
  define lowp' where "lowp' = (if midval < h then midp + 1 else lowp)"
  define highp' where "highp' = (if midval < h then highp else midp - 1)"
  note unfold = search_unfold [OF midp_def midval_def midval1_def lowp'_def highp'_def]
  have lh: "lowp \<le> highp" using pr by simp
  note mb = midp_between [OF lh, folded midp_def]
  have Ple: "P \<le> length es" by (simp add: P_def first_ge_le)
  have lo: "lowp \<le> int P" and hi: "int P \<le> highp" using pr by (simp_all add: P_def)
  show ?case
  proof (cases "midp = int (length es)")
    case True
    with mb pr have hn: "highp = int (length es)" by simp
    with True have "(lowp + highp) sdiv 2 = highp" by (simp add: midp_def)
    from midp_top [OF pr(1) lh this] hn lo Ple have "P = length es" by simp
    with True show ?thesis by (simp add: unfold clockwise_index_def P_def)
  next
    case False
    with mb pr have m: "0 \<le> midp" "midp < int (length es)" by auto
    show ?thesis
    proof (cases "h \<le> midval \<and> h > midval1")
      case True
      have "P \<le> nat midp"
      proof (rule ccontr)
        assume "\<not> P \<le> nat midp"
        then have "nat midp < first_ge es h" by (simp add: P_def)
        from first_ge_below [OF this] True show False by (auto simp: midval_def)
      qed
      moreover have "nat midp \<le> P"
      proof (cases "midp = 0")
        case True
        then show ?thesis by simp
      next
        case F: False
        show ?thesis
        proof (rule ccontr)
          assume "\<not> nat midp \<le> P"
          then have "P \<le> nat (midp - 1)" using F m by simp
          moreover have "nat (midp - 1) < length es" using m by simp
          ultimately have "h \<le> hash (es ! nat (midp - 1))"
            using first_ge_above [OF assms(1)] by (simp add: P_def)
          with True F show False by (auto simp: midval1_def)
        qed
      qed
      ultimately have "int P = midp" using m by simp
      with True False m show ?thesis
        by (auto simp: unfold clockwise_index_def P_def)
    next
      case nb: False
      show ?thesis
      proof (cases "midval < h")
        case True
        have "nat midp < P"
        proof (rule ccontr)
          assume "\<not> nat midp < P"
          then have "first_ge es h \<le> nat midp" by (simp add: P_def)
          moreover have "nat midp < length es" using m by simp
          ultimately have "h \<le> hash (es ! nat midp)"
            using first_ge_above [OF assms(1)] by simp
          with True show False by (auto simp: midval_def)
        qed
        then have lo': "midp + 1 \<le> int P" using m by simp
        have "search es h (midp + 1) highp = Inr (int (clockwise_index es h))"
          using less.hyps [of highp "midp + 1"] mb pr lo' hi by (simp add: P_def)
        then show ?thesis
          using False m nb True lo' hi by (auto simp: unfold lowp'_def highp'_def)
      next
        case ge: False
        with nb have nb1: "\<not> h > midval1" by simp
        have mpos: "midp \<noteq> 0"
          using nb1 assms(2) by (auto simp: midval1_def word_gt_0)
        have "P \<le> nat (midp - 1)"
        proof (rule ccontr)
          assume "\<not> P \<le> nat (midp - 1)"
          then have "nat (midp - 1) < first_ge es h" by (simp add: P_def)
          from first_ge_below [OF this] nb1 mpos show False by (auto simp: midval1_def)
        qed
        then have hi': "int P \<le> midp - 1" using m mpos by simp
        have "search es h lowp (midp - 1) = Inr (int (clockwise_index es h))"
          using less.hyps [of "midp - 1" lowp] mb pr lo hi' by (simp add: P_def)
        then show ?thesis
          using False m nb ge lo hi' by (auto simp: unfold lowp'_def highp'_def)
      qed
    qed
  qed
qed

text \<open>For \<open>h = 0\<close> the test \<^verbatim>\<open>h > midval1\<close> never holds, and the loop ends with \<^verbatim>\<open>midp = 0\<close>.\<close>

lemma search_zero:
  fixes es :: "'h RingEntry list"
  assumes "0 \<le> lowp" and "lowp \<le> highp" and "highp \<le> int (length es)"
  shows "search es 0 lowp highp = Inr 0"
  using assms
proof (induction "nat (highp - lowp + 1)" arbitrary: lowp highp rule: less_induct)
  case less
  define midp where "midp = (lowp + highp) sdiv 2"
  note mb = midp_between [OF less.prems(2), folded midp_def]
  note unfold = search_unfold [where h = 0 and es = es, OF midp_def refl refl refl refl]
  show ?case
  proof (cases "lowp > midp - 1")
    case True
    then show ?thesis using mb less.prems by (auto simp: unfold)
  next
    case False
    then have "search es 0 lowp (midp - 1) = Inr 0"
      using less.hyps [of "midp - 1" lowp] mb less.prems by simp
    then show ?thesis using mb less.prems False by (auto simp: unfold)
  qed
qed

text \<open>Whatever the window, an index the loop returns is an index of the ring.\<close>

lemma search_range:
  fixes es :: "'h RingEntry list"
  shows "search es h lowp highp = Inr p \<Longrightarrow> es \<noteq> [] \<Longrightarrow> 0 \<le> p \<and> p < int (length es)"
proof (induction es h lowp highp rule: search.induct)
  case (1 es h lowp highp)
  define midp where "midp = (lowp + highp) sdiv 2"
  define midval where "midval = hash (es ! nat midp)"
  define midval1 where "midval1 = (if midp = 0 then 0 else hash (es ! nat (midp - 1)))"
  define lowp' where "lowp' = (if midval < h then midp + 1 else lowp)"
  define highp' where "highp' = (if midval < h then highp else midp - 1)"
  note unfold = search_unfold [OF midp_def midval_def midval1_def lowp'_def highp'_def]
  show ?case
  proof (cases "midp = int (length es) \<or> midp < 0 \<or> int (length es) < midp
      \<or> (h \<le> midval \<and> h > midval1) \<or> lowp' > highp'")
    case True
    with "1.prems" unfold show ?thesis by (auto split: if_splits)
  next
    case False
    with "1.prems" unfold have rec: "search es h lowp' highp' = Inr p" by (auto split: if_splits)
    from False show ?thesis
      by (intro "1.IH" [OF midp_def _ _ midval_def midval1_def _ lowp'_def highp'_def _ rec])
        (use "1.prems" in auto)
  qed
qed

lemma clockwise_index_less: "es \<noteq> [] \<Longrightarrow> clockwise_index es h < length es"
  using first_ge_le [of es h] by (auto simp: clockwise_index_def)

lemma chooseIndex_unsharded:
  assumes "sorted (map hash (ring r))"
  shows "chooseIndex False r h = Inr (int (clockwise_index (ring r) h))"
proof (cases "h = 0")
  case True
  have "first_ge (ring r) 0 = 0"
    by (cases "ring r") (simp_all add: first_ge_def)
  then have "clockwise_index (ring r) 0 = 0" by (simp add: clockwise_index_def)
  with True show ?thesis
    by (simp add: chooseIndex_def window_def search_zero)
next
  case False
  show ?thesis
    using search_finds [OF assms False, of 0 "int (length (ring r))"] first_ge_le [of "ring r" h]
    by (simp add: chooseIndex_def window_def)
qed

subsection \<open>Rings the constructor builds\<close>

lemma Ring_ctor_sorted:
  assumes "Ring_ctor ext hosts mnw min_ring_size max_ring_size hf uh = Some (Inr (r, stats))"
  shows "sorted (map hash (ring r))"
  using assms
  by (auto simp: Ring_ctor_def Let_def split: if_splits option.splits sum.splits prod.splits)

subsection \<open>The lookup without sharding\<close>

text \<open>
  Claim C1. On a ring that is sorted by hash (every built ring is, \<open>Ring_ctor_sorted\<close>) and not
  empty, queried with sharding off, \<^verbatim>\<open>chooseHost(h, 0)\<close> returns the host of the entry at index
  \<open>p\<close>, where: if some entry has \<open>h \<le> hash\<close>, \<open>p\<close> is the smallest such index; for \<open>h \<noteq> 0\<close> this is
  the one index with \<open>hash (p - 1) < h \<le> hash p\<close>, the hash before index 0 read as 0; if \<open>h\<close>
  exceeds every hash, \<open>p = 0\<close>; and if \<open>h = 0\<close>, \<open>p = 0\<close>.
\<close>

theorem chooseHost_clockwise_first:
  fixes r :: "'h Ring"
  assumes srt: "sorted (map hash (ring r))" and ne: "ring r \<noteq> []"
  shows "\<exists>p < length (ring r).
      p = clockwise_index (ring r) h \<and>
      chooseHost False r h 0 = Inr (Some (host (ring r ! p))) \<and>
      ((\<exists>k < length (ring r). h \<le> hash (ring r ! k)) \<longrightarrow>
         h \<le> hash (ring r ! p) \<and> (\<forall>k < p. hash (ring r ! k) < h) \<and>
         (h \<noteq> 0 \<longrightarrow>
            (\<forall>q < length (ring r).
               ((if q = 0 then 0 else hash (ring r ! (q - 1))) < h \<and> h \<le> hash (ring r ! q))
                 = (q = p)))) \<and>
      ((\<forall>k < length (ring r). hash (ring r ! k) < h) \<longrightarrow> p = 0) \<and>
      (h = 0 \<longrightarrow> p = 0)"
proof -
  define es where "es = ring r"
  define P where "P = first_ge es h"
  define p where "p = clockwise_index es h"
  have pn: "p < length es" using ne by (simp add: p_def es_def clockwise_index_less)
  have res: "chooseHost False r h 0 = Inr (Some (host (es ! p)))"
    using ne by (simp add: chooseHost_def chooseIndex_unsharded [OF srt] p_def es_def)
  have some: "h \<le> hash (es ! p) \<and> (\<forall>k < p. hash (es ! k) < h) \<and>
         (h \<noteq> 0 \<longrightarrow>
            (\<forall>q < length es.
               ((if q = 0 then 0 else hash (es ! (q - 1))) < h \<and> h \<le> hash (es ! q)) = (q = p)))"
    if ex: "\<exists>k < length es. h \<le> hash (es ! k)"
  proof -
    from ex obtain k where k: "k < length es" "h \<le> hash (es ! k)" by blast
    have "\<not> k < P" using first_ge_below [of k es h] k by (auto simp: P_def)
    then have Plt: "P < length es" using k by simp
    then have pP: "p = P" by (simp add: p_def clockwise_index_def P_def)
    have at: "h \<le> hash (es ! p)" using first_ge_at [of es h] Plt pP by (simp add: P_def)
    have below: "\<forall>k < p. hash (es ! k) < h" using first_ge_below [of _ es h] pP by (simp add: P_def)
    have uniq: "((if q = 0 then 0 else hash (es ! (q - 1))) < h \<and> h \<le> hash (es ! q)) = (q = p)"
      if h0: "h \<noteq> 0" and q: "q < length es" for q
    proof
      assume a: "(if q = 0 then 0 else hash (es ! (q - 1))) < h \<and> h \<le> hash (es ! q)"
      have "\<not> q < P" using first_ge_below [of q es h] a by (auto simp: P_def)
      moreover have "\<not> P < q"
      proof
        assume "P < q"
        then have "first_ge es h \<le> q - 1" "q - 1 < length es" "q \<noteq> 0" using q by (simp_all add: P_def)
        with first_ge_above [OF srt [folded es_def], of "q - 1" h] a show False by auto
      qed
      ultimately show "q = p" using pP by simp
    next
      assume qp: "q = p"
      have "(if p = 0 then 0 else hash (es ! (p - 1))) < h"
        using below h0 by (auto simp: word_gt_0)
      with at show "(if q = 0 then 0 else hash (es ! (q - 1))) < h \<and> h \<le> hash (es ! q)"
        unfolding qp by blast
    qed
    from at below uniq show ?thesis by blast
  qed
  have none: "p = 0" if all: "\<forall>k < length es. hash (es ! k) < h"
  proof -
    have "\<not> P < length es" using first_ge_at [of es h] all by (auto simp: P_def)
    then have "P = length es" using first_ge_le [of es h] by (simp add: P_def)
    then show ?thesis by (simp add: p_def clockwise_index_def P_def)
  qed
  have zero: "p = 0" if "h = 0"
  proof -
    have "first_ge es 0 = 0" by (cases es) (simp_all add: first_ge_def)
    with that show ?thesis by (simp add: p_def clockwise_index_def)
  qed
  from pn res some none zero show ?thesis
    unfolding es_def [symmetric] p_def [symmetric] by blast
qed

theorem chooseHost_clockwise_first_witness:
  "sorted (map hash (ring example_ring)) \<and> ring example_ring \<noteq> [] \<and>
   chooseHost False example_ring 15 0 = Inr (Some ''B'') \<and>
   chooseHost False example_ring 40 0 = Inr (Some ''D'') \<and>
   chooseHost False example_ring 50 0 = Inr (Some ''A'') \<and>
   chooseHost False example_ring 0 0 = Inr (Some ''A'')"
proof -
  have s: "sorted (map hash (ring example_ring))" and n: "ring example_ring \<noteq> []"
    by (simp_all add: example_ring_def)
  have c: "clockwise_index (ring example_ring) 15 = 1" "clockwise_index (ring example_ring) 40 = 3"
    "clockwise_index (ring example_ring) 50 = 0" "clockwise_index (ring example_ring) 0 = 0"
    by (simp_all add: example_ring_def clockwise_index_def first_ge_def)
  have e: "host (ring example_ring ! 0) = ''A''" "host (ring example_ring ! Suc 0) = ''B''"
    "host (ring example_ring ! 3) = ''D''"
    by (simp_all add: example_ring_def)
  show ?thesis
    using s n chooseHost_clockwise_first [OF s n, of 15] chooseHost_clockwise_first [OF s n, of 40]
      chooseHost_clockwise_first [OF s n, of 50] chooseHost_clockwise_first [OF s n, of 0]
    by (auto simp: c e)
qed

subsection \<open>The retry offset\<close>

text \<open>
  Lines 148 to 155. On a ring that is not empty, when the loop is left with the index \<open>p\<close>,
  \<^verbatim>\<open>chooseHost\<close> with \<^verbatim>\<open>attempt > 0\<close> returns the host of the entry at \<open>(p + attempt) mod\<close> the ring size;
  the host is the one of attempt 0 whenever \<^verbatim>\<open>attempt\<close> is a multiple of the ring size.
\<close>

lemma retry_offset_of_selected_index:
  fixes r :: "'h Ring"
  assumes ne: "ring r \<noteq> []" and att: "attempt \<noteq> 0" and idx: "chooseIndex shard r h = Inr p"
  shows "0 \<le> p \<and> nat p < length (ring r) \<and>
     chooseHost shard r h 0 = Inr (Some (host (ring r ! nat p))) \<and>
     chooseHost shard r h attempt =
       Inr (Some (host (ring r ! ((nat p + unat attempt) mod length (ring r))))) \<and>
     (unat attempt mod length (ring r) = 0 \<longrightarrow>
        chooseHost shard r h attempt = chooseHost shard r h 0)"
proof -
  from idx obtain lowp highp where "search (ring r) h lowp highp = Inr p"
    by (auto simp: chooseIndex_def split: sum.splits)
  from search_range [OF this ne] have p: "0 \<le> p" "p < int (length (ring r))" by simp_all
  have "nat ((p + uint attempt) mod int (length (ring r))) =
          (nat p + unat attempt) mod length (ring r)"
    using p by (simp add: nat_mod_distrib nat_add_distrib)
  then have a: "chooseHost shard r h attempt =
       Inr (Some (host (ring r ! ((nat p + unat attempt) mod length (ring r)))))"
    using ne att idx by (simp add: chooseHost_def word_gt_0)
  have z: "chooseHost shard r h 0 = Inr (Some (host (ring r ! nat p)))"
    using ne idx by (simp add: chooseHost_def)
  have "(nat p + unat attempt) mod length (ring r) = nat p"
    if "unat attempt mod length (ring r) = 0"
    using that p by (metis add.right_neutral mod_add_right_eq mod_less nat_less_iff zless_nat_conj
        nat_int)
  with a z p show ?thesis by auto
qed

text \<open>
  Without sharding the loop always selects an index on a sorted ring, so the retry offset is
  applied to the clockwise index for every hash.
\<close>

lemma retry_offset_unsharded:
  fixes r :: "'h Ring"
  assumes srt: "sorted (map hash (ring r))" and ne: "ring r \<noteq> []" and att: "attempt \<noteq> 0"
  shows "chooseHost False r h attempt =
           Inr (Some (host (ring r !
             ((clockwise_index (ring r) h + unat attempt) mod length (ring r)))))"
  using retry_offset_of_selected_index [OF ne att chooseIndex_unsharded [OF srt, of h]] by simp

lemma retry_offset_example:
  "chooseHost False example_ring 15 0 = Inr (Some ''B'') \<and>
   chooseHost False example_ring 15 1 = Inr (Some ''C'') \<and>
   chooseHost False example_ring 15 4 = Inr (Some ''B'')"
proof -
  have n: "ring example_ring \<noteq> []" by (simp add: example_ring_def)
  have "sorted (map hash (ring example_ring))" by (simp add: example_ring_def)
  from chooseIndex_unsharded [OF this, of 15]
  have i: "chooseIndex False example_ring 15 = Inr 1"
    by (simp add: example_ring_def clockwise_index_def first_ge_def)
  have one: "(1 :: u32) \<noteq> 0" and four: "(4 :: u32) \<noteq> 0" by simp_all
  show ?thesis
    using retry_offset_of_selected_index [OF n one i] retry_offset_of_selected_index [OF n four i]
    by (simp add: example_ring_def)
qed

subsection \<open>No hosts\<close>

text \<open>
  Claim C9. Built from an empty host vector, the ring has no entries and no gauge is set; and
  on a ring without entries \<^verbatim>\<open>chooseHost\<close> returns \<^verbatim>\<open>nullptr\<close> for every hash and every attempt,
  with sharding on or off.
\<close>

theorem empty_hosts_empty_ring:
  "Ring_ctor ext [] min_normalized_weight min_ring_size max_ring_size hash_function use_hostname =
     Some (Inr (\<lparr>ring = [], ring_shard = [], rshift_to_shard = rshift_initial ext\<rparr>, [])) \<and>
   chooseHost shard (r\<lparr>ring := []\<rparr>) h attempt = Inr None"
  by (simp add: Ring_ctor_def chooseHost_def)

section \<open>The rounding of \<^verbatim>\<open>double\<close>\<close>

text \<open>\<open>bitlen_nat\<close> counts binary digits, and \<open>binade x\<close> brackets \<open>x\<close> between two powers of two.\<close>

lemma bitlen_nat_bounds:
  "0 < n \<Longrightarrow> 2 ^ (bitlen_nat n - 1) \<le> n \<and> n < 2 ^ bitlen_nat n"
proof (induction n rule: bitlen_nat.induct)
  case (1 n)
  show ?case
  proof (cases "n div 2 = 0")
    case True
    with 1 have "n = 1" by (simp add: div_eq_0_iff)
    then show ?thesis by (simp add: bitlen_nat.simps)
  next
    case False
    with 1 have IH: "2 ^ (bitlen_nat (n div 2) - 1) \<le> n div 2" "n div 2 < 2 ^ bitlen_nat (n div 2)"
      by simp_all
    have b: "bitlen_nat n = Suc (bitlen_nat (n div 2))"
      using 1 by (subst bitlen_nat.simps) simp
    have pos: "0 < bitlen_nat (n div 2)"
      using False by (subst bitlen_nat.simps) simp
    then have "(2::nat) ^ bitlen_nat (n div 2) = 2 * 2 ^ (bitlen_nat (n div 2) - 1)"
      by (cases "bitlen_nat (n div 2)") simp_all
    with IH show ?thesis unfolding b by (simp, linarith)
  qed
qed

lemma pow2_nat_le_rat:
  fixes z :: rat
  assumes "2 ^ k \<le> (n::nat)"
  shows "(2::rat) ^ k \<le> rat_of_nat n"
proof -
  have "rat_of_nat (2 ^ k) \<le> rat_of_nat n" using assms by (rule of_nat_mono)
  then show ?thesis by (simp only: of_nat_power of_nat_numeral)
qed

lemma rat_nat_le_pow2:
  assumes "(n::nat) + 1 \<le> 2 ^ k"
  shows "rat_of_nat n + 1 \<le> (2::rat) ^ k"
proof -
  have "rat_of_nat (n + 1) \<le> rat_of_nat (2 ^ k)" using assms by (rule of_nat_mono)
  then show ?thesis by (simp only: of_nat_power of_nat_numeral of_nat_add of_nat_1)
qed

lemma binade_bounds:
  assumes "x \<noteq> 0"
  shows "pow2 (binade x) \<le> \<bar>x\<bar> \<and> \<bar>x\<bar> < pow2 (binade x + 1)"
proof (cases "1 \<le> \<bar>x\<bar>")
  case True
  define n where "n = nat \<lfloor>\<bar>x\<bar>\<rfloor>"
  have n1: "0 < n" using True by (simp add: n_def)
  have lo: "rat_of_nat n \<le> \<bar>x\<bar>" and hi: "\<bar>x\<bar> < rat_of_nat n + 1"
    using True by (simp_all add: n_def of_nat_nat) linarith+
  from bitlen_nat_bounds [OF n1] have b: "2 ^ (bitlen_nat n - 1) \<le> n" "n + 1 \<le> 2 ^ bitlen_nat n"
    by simp_all
  have bpos: "0 < bitlen_nat n" using n1 by (subst bitlen_nat.simps) simp
  have 1: "(2::rat) ^ (bitlen_nat n - 1) \<le> \<bar>x\<bar>"
    using pow2_nat_le_rat [OF b(1)] lo by (rule order_trans)
  have 2: "\<bar>x\<bar> < (2::rat) ^ bitlen_nat n"
    using hi rat_nat_le_pow2 [OF b(2)] by (rule less_le_trans)
  have e: "binade x = int (bitlen_nat n) - 1" using True by (simp add: binade_def n_def)
  have "nat (int (bitlen_nat n) - 1) = bitlen_nat n - 1" by simp
  then show ?thesis using 1 2 bpos by (simp add: e pow2_def)
next
  case False
  define y where "y = 1 / \<bar>x\<bar>"
  have xpos: "0 < \<bar>x\<bar>" using assms by simp
  have y1: "1 < y" using False xpos by (simp add: y_def)
  define n where "n = nat (\<lceil>y\<rceil> - 1)"
  have c2: "2 \<le> \<lceil>y\<rceil>" using y1 by (simp add: le_ceiling_iff) 
  then have n1: "0 < n" by (simp add: n_def)
  have ni: "int n = \<lceil>y\<rceil> - 1" using c2 by (simp add: n_def)
  have lo: "rat_of_nat n < y"
  proof -
    have "rat_of_int (\<lceil>y\<rceil> - 1) < y" by linarith
    then show ?thesis using ni by (metis of_int_of_nat_eq)
  qed
  have hi: "y \<le> rat_of_nat n + 1"
  proof -
    have "y \<le> rat_of_int \<lceil>y\<rceil>" by linarith
    also have "rat_of_int \<lceil>y\<rceil> = rat_of_int (int n) + 1" using ni by simp
    finally show ?thesis by simp
  qed
  from bitlen_nat_bounds [OF n1] have b: "2 ^ (bitlen_nat n - 1) \<le> n" "n + 1 \<le> 2 ^ bitlen_nat n"
    by simp_all
  have bpos: "0 < bitlen_nat n" using n1 by (subst bitlen_nat.simps) simp
  have 1: "(2::rat) ^ (bitlen_nat n - 1) < y"
    using pow2_nat_le_rat [OF b(1)] lo by (rule le_less_trans)
  have 2: "y \<le> (2::rat) ^ bitlen_nat n"
    using hi rat_nat_le_pow2 [OF b(2)] by (rule order_trans)
  have e: "binade x = - int (bitlen_nat n)" using False by (simp add: binade_def n_def y_def)
  have A: "1 / (2::rat) ^ bitlen_nat n \<le> \<bar>x\<bar>"
  proof -
    have "1 / (2::rat) ^ bitlen_nat n \<le> 1 / y" using 2 y1 by (simp add: frac_le)
    then show ?thesis by (simp add: y_def)
  qed
  have B: "\<bar>x\<bar> < 1 / (2::rat) ^ (bitlen_nat n - 1)"
  proof -
    have "1 / y < 1 / (2::rat) ^ (bitlen_nat n - 1)" using 1 by (simp add: frac_less2)
    then show ?thesis by (simp add: y_def)
  qed
  show ?thesis
  proof (cases "bitlen_nat n = 1")
    case True
    with A B show ?thesis by (simp add: e pow2_def)
  next
    case F: False
    with bpos have "nat (int (bitlen_nat n) - 1) = bitlen_nat n - 1" "\<not> (1::int) \<le> 1 - int (bitlen_nat n) + 0"
      "\<not> int (bitlen_nat n) \<le> 1"
      by simp_all
    with A B bpos show ?thesis by (simp add: e pow2_def)
  qed
qed


lemma pow2_power_int: "pow2 e = power_int 2 e"
  by (auto simp: pow2_def power_int_def inverse_eq_divide power_one_over)

lemma pow2_pos: "0 < pow2 e"
  by (simp add: pow2_def)

lemma round_half_even_near: "\<bar>of_int (round_half_even x) - x\<bar> \<le> 1 / 2"
proof -
  have "rat_of_int \<lfloor>x\<rfloor> \<le> x" "x < rat_of_int \<lfloor>x\<rfloor> + 1" by linarith+
  then show ?thesis by (auto simp: round_half_even_def Let_def)
qed

lemma round_half_even_mono_int:
  "rat_of_int a \<le> x \<Longrightarrow> a \<le> round_half_even x" "x \<le> rat_of_int b \<Longrightarrow> round_half_even x \<le> b"
proof -
  assume "rat_of_int a \<le> x"
  then have "a \<le> \<lfloor>x\<rfloor>" by (simp add: le_floor_iff)
  then show "a \<le> round_half_even x" by (auto simp: round_half_even_def Let_def)
next
  assume b: "x \<le> rat_of_int b"
  then have f: "\<lfloor>x\<rfloor> \<le> b" by (simp add: floor_le_iff)
  show "round_half_even x \<le> b"
  proof (cases "\<lfloor>x\<rfloor> = b")
    case True
    with b have "x - rat_of_int \<lfloor>x\<rfloor> \<le> 0" by simp
    then show ?thesis using True by (auto simp: round_half_even_def Let_def)
  next
    case False
    with f have "\<lfloor>x\<rfloor> + 1 \<le> b" by simp
    then show ?thesis by (auto simp: round_half_even_def Let_def)
  qed
qed

text \<open>
  \<open>fl64 x\<close> is a number with a 53-bit significand in the binade of \<open>x\<close> (or the power of two
  above it), at most half a unit in the last place from \<open>x\<close>.
\<close>

lemma fl64_nearest:
  assumes "x \<noteq> 0"
  defines "u \<equiv> pow2 (binade x - 52)"
  shows "\<exists>m. fl64 x = of_int m * u \<and> 2 ^ 52 \<le> \<bar>m\<bar> \<and> \<bar>m\<bar> \<le> 2 ^ 53 \<and> \<bar>fl64 x - x\<bar> \<le> u / 2"
proof -
  define m where "m = round_half_even (x / u)"
  have upos: "0 < u" by (simp add: u_def pow2_pos)
  have fl: "fl64 x = of_int m * u" using assms(1) by (simp add: fl64_def m_def u_def Let_def)
  have "\<bar>of_int m - x / u\<bar> \<le> 1 / 2" unfolding m_def by (rule round_half_even_near)
  then have "\<bar>of_int m - x / u\<bar> * u \<le> 1 / 2 * u" using upos by (simp add: mult_right_mono)
  moreover have "\<bar>of_int m - x / u\<bar> * u = \<bar>of_int m * u - x\<bar>"
  proof -
    have "\<bar>of_int m - x / u\<bar> * u = \<bar>(of_int m - x / u) * u\<bar>" using upos by (simp add: abs_mult)
    also have "(of_int m - x / u) * u = of_int m * u - x" using upos by (simp add: field_simps)
    finally show ?thesis .
  qed
  ultimately have err: "\<bar>fl64 x - x\<bar> \<le> u / 2" by (simp add: fl)
  have e52: "pow2 (binade x) = 2 ^ 52 * u" and e53: "pow2 (binade x + 1) = 2 ^ 53 * u"
    by (simp_all add: u_def pow2_power_int power_int_diff power_int_add)
  from binade_bounds [OF assms(1)] have bx: "2 ^ 52 * u \<le> \<bar>x\<bar>" "\<bar>x\<bar> < 2 ^ 53 * u"
    by (simp_all add: e52 e53)
  have q: "2 ^ 52 \<le> \<bar>x / u\<bar>" "\<bar>x / u\<bar> \<le> 2 ^ 53"
    using bx upos by (simp_all add: field_simps abs_mult)
  have "2 ^ 52 \<le> \<bar>m\<bar> \<and> \<bar>m\<bar> \<le> 2 ^ 53"
  proof (cases "0 \<le> x / u")
    case True
    with q have "rat_of_int (2 ^ 52) \<le> x / u" "x / u \<le> rat_of_int (2 ^ 53)" by simp_all
    from round_half_even_mono_int(1) [OF this(1)] round_half_even_mono_int(2) [OF this(2)]
    show ?thesis by (simp add: m_def)
  next
    case False
    with q have "rat_of_int (- (2 ^ 53)) \<le> x / u" "x / u \<le> rat_of_int (- (2 ^ 52))" by simp_all
    from round_half_even_mono_int(1) [OF this(1)] round_half_even_mono_int(2) [OF this(2)]
    show ?thesis by (simp add: m_def)
  qed
  with fl err show ?thesis by blast
qed

section \<open>The constructor at concrete inputs\<close>

subsection \<open>Evaluation\<close>

lemma floor_rat_numeral: "\<lfloor>(numeral a :: rat) / numeral b\<rfloor> = numeral a div numeral b"
  using floor_divide_of_int_eq [of "numeral a" "numeral b", where ?'a = rat] by simp

lemma floor_rat_one: "\<lfloor>(1 :: rat) / numeral b\<rfloor> = 1 div numeral b"
  using floor_divide_of_int_eq [of 1 "numeral b", where ?'a = rat] by simp

lemma ceiling_rat_numeral:
  "\<lceil>(numeral a :: rat) / numeral b\<rceil> = - ((- numeral a) div numeral b)"
  using ceiling_divide_eq_div [of "numeral a" "numeral b", where ?'a = rat] by simp

lemma ceiling_rat_one: "\<lceil>(1 :: rat) / numeral b\<rceil> = - ((- 1) div numeral b)"
  using ceiling_divide_eq_div [of 1 "numeral b", where ?'a = rat] by simp

lemmas fl64_eval = fl64_def binade_def bitlen_nat.simps pow2_def round_half_even_def Let_def
  floor_rat_numeral floor_rat_one ceiling_rat_numeral ceiling_rat_one

lemmas ctor_eval = Ring_ctor_def ring_scale_def add_hashes.simps decimal.simps build_shards_def
  msb_loop.simps shard_step_def shard_index_plain_def

lemma hashes_of_sorted:
  "hashes_of h \<lparr>ring = sort_key hash es, ring_shard = s, rshift_to_shard = k\<rparr> =
     length (filter (\<lambda>e. host e = h) es)"
  by (simp add: hashes_of_def filter_sort)

lemma five_equal_hosts_wellformed:
  "list_all (\<lambda>(h, w). 0 < w \<and> fl64 w = w \<and> fl64 (1 / 5) \<le> w) five_equal_hosts \<and>
   double_sum (map snd five_equal_hosts) = 1"
  by (simp add: five_equal_hosts_def double_sum_def fl64_eval)

lemma three_exact_hosts_wellformed:
  "list_all (\<lambda>(h, w). 0 < w \<and> fl64 w = w \<and> 365317832953221 / 9007199254740992 \<le> w)
     three_exact_hosts \<and>
   sum_list (map snd three_exact_hosts) = 1 \<and> double_sum (map snd three_exact_hosts) = 1"
  by (simp add: three_exact_hosts_def double_sum_def fl64_eval)

lemma twelfths_hosts_wellformed:
  "list_all (\<lambda>(h, w). 0 < w \<and> fl64 w = w \<and> fl64 (1 / 12) \<le> w) twelfths_hosts \<and>
   double_sum (map snd twelfths_hosts) = 1"
  by (simp add: twelfths_hosts_def double_sum_def fl64_eval)

lemma five_exact_hosts_wellformed:
  "list_all (\<lambda>(h, w). 0 < w \<and> fl64 w = w \<and> 496621283252734 / 18014398509481984 \<le> w)
     five_exact_hosts \<and>
   sum_list (map snd five_exact_hosts) = 1 \<and> double_sum (map snd five_exact_hosts) = 1"
  by (simp add: five_exact_hosts_def double_sum_def fl64_eval)

subsection \<open>Builds in which the running sum drifts\<close>

lemma build_five_equal:
  "Ring_ctor (ext\<lparr>shard_ringhash := False\<rparr>) five_equal_hosts (fl64 (1 / 5)) 3 3 hf uh =
     Some (Inr (\<lparr>ring = sort_key hash
                   [\<lparr>hash = hash_with ext hf (hashKey ext ''A'' uh @ ''_0''), host = ''A''\<rparr>,
                    \<lparr>hash = hash_with ext hf (hashKey ext ''B'' uh @ ''_0''), host = ''B''\<rparr>,
                    \<lparr>hash = hash_with ext hf (hashKey ext ''D'' uh @ ''_0''), host = ''D''\<rparr>,
                    \<lparr>hash = hash_with ext hf (hashKey ext ''E'' uh @ ''_0''), host = ''E''\<rparr>],
                 ring_shard = [], rshift_to_shard = rshift_initial ext\<rparr>,
                [(stat_size, 3), (stat_min_hashes_per_host, 0), (stat_max_hashes_per_host, 1)]))"
  by (simp add: five_equal_hosts_def ctor_eval fl64_eval hash_with_def)

lemma build_three_exact:
  "Ring_ctor (ext\<lparr>shard_ringhash := False\<rparr>) three_exact_hosts
       (365317832953221 / 9007199254740992) 3 3 hf uh =
     Some (Inr (\<lparr>ring = sort_key hash
                   [\<lparr>hash = hash_with ext hf (hashKey ext ''A'' uh @ ''_0''), host = ''A''\<rparr>,
                    \<lparr>hash = hash_with ext hf (hashKey ext ''A'' uh @ ''_1''), host = ''A''\<rparr>,
                    \<lparr>hash = hash_with ext hf (hashKey ext ''A'' uh @ ''_2''), host = ''A''\<rparr>,
                    \<lparr>hash = hash_with ext hf (hashKey ext ''C'' uh @ ''_0''), host = ''C''\<rparr>],
                 ring_shard = [], rshift_to_shard = rshift_initial ext\<rparr>,
                [(stat_size, 3), (stat_min_hashes_per_host, 0), (stat_max_hashes_per_host, 3)]))"
  by (simp add: three_exact_hosts_def ctor_eval fl64_eval hash_with_def)

lemma build_twelfths:
  "Ring_ctor (ext\<lparr>shard_ringhash := False\<rparr>) twelfths_hosts (fl64 (1 / 12)) 4 4 hf uh =
     Some (Inr (\<lparr>ring = sort_key hash
                   [\<lparr>hash = hash_with ext hf (hashKey ext ''A'' uh @ ''_0''), host = ''A''\<rparr>,
                    \<lparr>hash = hash_with ext hf (hashKey ext ''B'' uh @ ''_0''), host = ''B''\<rparr>,
                    \<lparr>hash = hash_with ext hf (hashKey ext ''B'' uh @ ''_1''), host = ''B''\<rparr>,
                    \<lparr>hash = hash_with ext hf (hashKey ext ''C'' uh @ ''_0''), host = ''C''\<rparr>],
                 ring_shard = [], rshift_to_shard = rshift_initial ext\<rparr>,
                [(stat_size, 4), (stat_min_hashes_per_host, 0), (stat_max_hashes_per_host, 2)]))"
  by (simp add: twelfths_hosts_def ctor_eval fl64_eval hash_with_def)

lemma build_five_exact:
  "Ring_ctor (ext\<lparr>shard_ringhash := False\<rparr>) five_exact_hosts
       (496621283252734 / 18014398509481984) 4 4 hf uh =
     Some (Inr (\<lparr>ring = sort_key hash
                   [\<lparr>hash = hash_with ext hf (hashKey ext ''A'' uh @ ''_0''), host = ''A''\<rparr>,
                    \<lparr>hash = hash_with ext hf (hashKey ext ''A'' uh @ ''_1''), host = ''A''\<rparr>,
                    \<lparr>hash = hash_with ext hf (hashKey ext ''A'' uh @ ''_2''), host = ''A''\<rparr>,
                    \<lparr>hash = hash_with ext hf (hashKey ext ''D'' uh @ ''_0''), host = ''D''\<rparr>],
                 ring_shard = [], rshift_to_shard = rshift_initial ext\<rparr>,
                [(stat_size, 4), (stat_min_hashes_per_host, 0), (stat_max_hashes_per_host, 3)]))"
  by (simp add: five_exact_hosts_def ctor_eval fl64_eval hash_with_def)

lemma scales:
  "ring_scale (fl64 (1 / 5)) 3 3 = 3"
  "ring_scale (365317832953221 / 9007199254740992) 3 3 = 3"
  "ring_scale (fl64 (1 / 12)) 4 4 = 4"
  "ring_scale (496621283252734 / 18014398509481984) 4 4 = 4"
  by (simp_all add: ring_scale_def fl64_eval)

lemma counts_five_equal:
  "map (\<lambda>h. hashes_of h
          \<lparr>ring = sort_key hash
             [\<lparr>hash = a, host = ''A''\<rparr>, \<lparr>hash = b, host = ''B''\<rparr>, \<lparr>hash = d, host = ''D''\<rparr>,
              \<lparr>hash = e, host = ''E''\<rparr>],
           ring_shard = s, rshift_to_shard = k\<rparr>) [''A'', ''B'', ''C'', ''D'', ''E'']
     = [1, 1, 0, 1, 1]"
  unfolding hashes_of_sorted by simp

lemma counts_three_exact:
  "map (\<lambda>h. hashes_of h
          \<lparr>ring = sort_key hash
             [\<lparr>hash = a, host = ''A''\<rparr>, \<lparr>hash = b, host = ''A''\<rparr>, \<lparr>hash = c, host = ''A''\<rparr>,
              \<lparr>hash = d, host = ''C''\<rparr>],
           ring_shard = s, rshift_to_shard = k\<rparr>) [''A'', ''B'', ''C'']
     = [3, 0, 1]"
  unfolding hashes_of_sorted by simp

lemma counts_twelfths:
  "map (\<lambda>h. hashes_of h
          \<lparr>ring = sort_key hash
             [\<lparr>hash = a, host = ''A''\<rparr>, \<lparr>hash = b, host = ''B''\<rparr>, \<lparr>hash = c, host = ''B''\<rparr>,
              \<lparr>hash = d, host = ''C''\<rparr>],
           ring_shard = s, rshift_to_shard = k\<rparr>) [''A'', ''B'', ''C'', ''D'']
     = [1, 2, 1, 0]"
  unfolding hashes_of_sorted by simp

lemma counts_five_exact:
  "map (\<lambda>h. hashes_of h
          \<lparr>ring = sort_key hash
             [\<lparr>hash = a, host = ''A''\<rparr>, \<lparr>hash = b, host = ''A''\<rparr>, \<lparr>hash = c, host = ''A''\<rparr>,
              \<lparr>hash = d, host = ''D''\<rparr>],
           ring_shard = s, rshift_to_shard = k\<rparr>) [''A'', ''B'', ''C'', ''D'', ''E'']
     = [3, 0, 0, 1, 0]"
  unfolding hashes_of_sorted by simp

text \<open>
  Claim C4. The claim is that a ring built from a non-empty host set, with positive weights
  of sum 1, \<^verbatim>\<open>min_normalized_weight\<close> their minimum and \<^verbatim>\<open>min_ring_size \<le> max_ring_size\<close>,
  has between \<^verbatim>\<open>min_ring_size\<close> and \<^verbatim>\<open>max_ring_size\<close> entries. The constructor does not meet it:
  with \<^verbatim>\<open>min_ring_size = max_ring_size = 3\<close>, five hosts of weight 1/5 (as a \<^verbatim>\<open>double\<close>) give a
  ring of 4 entries, and so do three hosts whose weights are doubles of exact sum 1. The
  fifth value of \<^verbatim>\<open>target_hashes\<close> is the \<^verbatim>\<open>double\<close> above 3, so the inner loop runs once more.
  This holds for every hash function and every key.
\<close>

theorem ring_larger_than_max_ring_size:
  "(\<exists>r stats.
      Ring_ctor (ext\<lparr>shard_ringhash := False\<rparr>) five_equal_hosts (fl64 (1 / 5)) 3 3 hf uh
        = Some (Inr (r, stats)) \<and> length (ring r) = 4) \<and>
   list_all (\<lambda>(h, w). 0 < w \<and> fl64 w = w \<and> fl64 (1 / 5) \<le> w) five_equal_hosts \<and>
   double_sum (map snd five_equal_hosts) = 1 \<and>
   (\<exists>r stats.
      Ring_ctor (ext\<lparr>shard_ringhash := False\<rparr>) three_exact_hosts
          (365317832953221 / 9007199254740992) 3 3 hf uh
        = Some (Inr (r, stats)) \<and> length (ring r) = 4) \<and>
   list_all (\<lambda>(h, w). 0 < w \<and> fl64 w = w \<and> 365317832953221 / 9007199254740992 \<le> w)
     three_exact_hosts \<and>
   sum_list (map snd three_exact_hosts) = 1"
  using five_equal_hosts_wellformed three_exact_hosts_wellformed
  by (simp add: build_five_equal build_three_exact)

text \<open>
  Claim C8. The claim is that the three gauges are set at the end of a build from a non-empty
  host set, \<^verbatim>\<open>size\<close> to the number of entries of the ring and the other two to the least and
  the greatest number of hashes of a host. The constructor sets \<^verbatim>\<open>size\<close> to \<^verbatim>\<open>ring_size\<close>, the
  ceiling of \<^verbatim>\<open>scale\<close> computed before the ring is filled: for the five hosts of weight 1/5 and
  for the three hosts of exact sum 1, with \<^verbatim>\<open>min_ring_size = max_ring_size = 3\<close>, the three
  gauges are set, \<^verbatim>\<open>size\<close> to 3, and the ring has 4 entries.
\<close>

theorem size_gauge_is_not_ring_length:
  "(\<exists>r. Ring_ctor (ext\<lparr>shard_ringhash := False\<rparr>) five_equal_hosts (fl64 (1 / 5)) 3 3 hf uh
        = Some (Inr (r, [(stat_size, 3), (stat_min_hashes_per_host, 0),
                          (stat_max_hashes_per_host, 1)])) \<and>
      length (ring r) = 4 \<and>
      map (\<lambda>h. hashes_of h r) [''A'', ''B'', ''C'', ''D'', ''E''] = [1, 1, 0, 1, 1]) \<and>
   (\<exists>r. Ring_ctor (ext\<lparr>shard_ringhash := False\<rparr>) three_exact_hosts
          (365317832953221 / 9007199254740992) 3 3 hf uh
        = Some (Inr (r, [(stat_size, 3), (stat_min_hashes_per_host, 0),
                          (stat_max_hashes_per_host, 3)])) \<and>
      length (ring r) = 4 \<and>
      map (\<lambda>h. hashes_of h r) [''A'', ''B'', ''C''] = [3, 0, 1])"
  by (intro conjI exI, rule build_five_equal, simp del: sort_key_simps, rule counts_five_equal,
      rule build_three_exact, simp del: sort_key_simps, rule counts_three_exact)

text \<open>
  Claim C3. The claim is that, for positive weights of sum 1 with \<^verbatim>\<open>min_normalized_weight\<close>
  their minimum, a host of weight \<open>w\<close> gets \<open>\<lfloor>scale * w\<rfloor>\<close> or \<open>\<lceil>scale * w\<rceil>\<close> entries. The
  constructor does not meet it: for the weights 1, 7, 1, 3 normalized by 12 and
  \<^verbatim>\<open>min_ring_size = max_ring_size = 4\<close>, \<^verbatim>\<open>scale\<close> is 4, host D has weight 1/4 and \<open>scale * w = 1\<close>,
  and D gets no entry; the same with five hosts whose weights are doubles of exact sum 1, for
  host E of weight 1/4. Before the last host \<^verbatim>\<open>target_hashes\<close> is the \<^verbatim>\<open>double\<close> above 3, which
  costs a fourth hash, and adding 1 to it rounds to 4.
\<close>

theorem host_count_not_floor_or_ceiling:
  "(\<exists>r stats.
      Ring_ctor (ext\<lparr>shard_ringhash := False\<rparr>) twelfths_hosts (fl64 (1 / 12)) 4 4 hf uh
        = Some (Inr (r, stats)) \<and>
      map (\<lambda>h. hashes_of h r) [''A'', ''B'', ''C'', ''D''] = [1, 2, 1, 0]) \<and>
   ring_scale (fl64 (1 / 12)) 4 4 = 4 \<and> snd (twelfths_hosts ! 3) = 1 / 4 \<and>
   list_all (\<lambda>(h, w). 0 < w \<and> fl64 w = w \<and> fl64 (1 / 12) \<le> w) twelfths_hosts \<and>
   double_sum (map snd twelfths_hosts) = 1 \<and>
   (\<exists>r stats.
      Ring_ctor (ext\<lparr>shard_ringhash := False\<rparr>) five_exact_hosts
          (496621283252734 / 18014398509481984) 4 4 hf uh
        = Some (Inr (r, stats)) \<and>
      map (\<lambda>h. hashes_of h r) [''A'', ''B'', ''C'', ''D'', ''E''] = [3, 0, 0, 1, 0]) \<and>
   ring_scale (496621283252734 / 18014398509481984) 4 4 = 4 \<and>
   snd (five_exact_hosts ! 4) = 1 / 4 \<and>
   list_all (\<lambda>(h, w). 0 < w \<and> fl64 w = w \<and> 496621283252734 / 18014398509481984 \<le> w)
     five_exact_hosts \<and>
   sum_list (map snd five_exact_hosts) = 1 \<and>
   \<lfloor>ring_scale (fl64 (1 / 12)) 4 4 * snd (twelfths_hosts ! 3)\<rfloor> = 1 \<and>
   \<lceil>ring_scale (fl64 (1 / 12)) 4 4 * snd (twelfths_hosts ! 3)\<rceil> = 1 \<and>
   \<lfloor>ring_scale (496621283252734 / 18014398509481984) 4 4 * snd (five_exact_hosts ! 4)\<rfloor> = 1 \<and>
   \<lceil>ring_scale (496621283252734 / 18014398509481984) 4 4 * snd (five_exact_hosts ! 4)\<rceil> = 1"
proof -
  have w3: "snd (twelfths_hosts ! 3) = 1 / 4"
    by (simp add: twelfths_hosts_def fl64_eval)
  have w4: "snd (five_exact_hosts ! 4) = 1 / 4"
    by (simp add: five_exact_hosts_def)
  have b1: "\<exists>r stats.
      Ring_ctor (ext\<lparr>shard_ringhash := False\<rparr>) twelfths_hosts (fl64 (1 / 12)) 4 4 hf uh
        = Some (Inr (r, stats)) \<and>
      map (\<lambda>h. hashes_of h r) [''A'', ''B'', ''C'', ''D''] = [1, 2, 1, 0]"
    by (intro exI conjI, rule build_twelfths, rule counts_twelfths)
  have b2: "\<exists>r stats.
      Ring_ctor (ext\<lparr>shard_ringhash := False\<rparr>) five_exact_hosts
          (496621283252734 / 18014398509481984) 4 4 hf uh
        = Some (Inr (r, stats)) \<and>
      map (\<lambda>h. hashes_of h r) [''A'', ''B'', ''C'', ''D'', ''E''] = [3, 0, 0, 1, 0]"
    by (intro exI conjI, rule build_five_exact, rule counts_five_exact)
  have f1: "\<lfloor>ring_scale (fl64 (1 / 12)) 4 4 * snd (twelfths_hosts ! 3)\<rfloor> = 1"
    "\<lceil>ring_scale (fl64 (1 / 12)) 4 4 * snd (twelfths_hosts ! 3)\<rceil> = 1"
    unfolding scales(3) w3 by simp_all
  have f2:
    "\<lfloor>ring_scale (496621283252734 / 18014398509481984) 4 4 * snd (five_exact_hosts ! 4)\<rfloor> = 1"
    "\<lceil>ring_scale (496621283252734 / 18014398509481984) 4 4 * snd (five_exact_hosts ! 4)\<rceil> = 1"
    unfolding scales(4) w4 by simp_all
  note t = twelfths_hosts_wellformed [THEN conjunct1] twelfths_hosts_wellformed [THEN conjunct2]
  note e = five_exact_hosts_wellformed [THEN conjunct1]
    five_exact_hosts_wellformed [THEN conjunct2, THEN conjunct1]
  show ?thesis
    by (intro conjI) (rule b1 b2 scales(3) scales(4) w3 w4 t e f1 f2)+
qed

subsection \<open>A build with sharding\<close>

lemma build_two_shards:
  "Ring_ctor shard_ext two_hosts (1 / 2) 2 2 XX_HASH True =
     Some (Inr (two_shard_ring,
                [(stat_size, 2), (stat_min_hashes_per_host, 1), (stat_max_hashes_per_host, 1)]))"
  by (simp add: shard_ext_def two_hosts_def two_shard_ring_def ctor_eval fl64_eval hash_with_def)

lemma two_shard_ring_sorted: "sorted (map hash (ring two_shard_ring))"
  by (simp add: two_shard_ring_def)

lemma two_shard_ring_indices:
  "shard_index 62 0x3FD63E2E8C62D9 = 0" "shard_index 62 0x6D2CEBF82CDBF7AC = 1"
  "shard_index 62 0x8000000000000000 = 2"
  by (simp_all add: shard_index_shift drop_bit_eq_div)

lemma two_shard_ring_unsharded:
  "chooseHost False two_shard_ring 0x6D2CEBF82CDBF7AC 0 = Inr (Some ''a'')"
  by (simp add: chooseHost_def chooseIndex_unsharded [OF two_shard_ring_sorted])
    (simp add: two_shard_ring_def clockwise_index_def first_ge_def)

lemma two_shard_ring_sharded:
  "chooseHost True two_shard_ring 0x6D2CEBF82CDBF7AC 0 = Inr (Some ''cx'')"
proof -
  have w: "window True two_shard_ring 0x6D2CEBF82CDBF7AC = Inr (2, 2)"
    by (simp add: window_def two_shard_ring_indices two_shard_ring_def)
  have s: "search (ring two_shard_ring) 0x6D2CEBF82CDBF7AC 2 2 = Inr 0"
    by (subst search.simps) (simp add: two_shard_ring_def signed_divide_int_def)
  show ?thesis
    by (simp add: chooseHost_def chooseIndex_def w s) (simp add: two_shard_ring_def)
qed

text \<open>
  Claim C6. The claim is that \<^verbatim>\<open>ring_shard_\<close> of a ring built with sharding starts with 0, ends
  with the number of entries, has the interior boundary \<open>k\<close> exactly when entry \<open>k\<close> has another
  shifted hash than entry \<open>k - 1\<close>, and so holds every entry inside the interval of its shard.
  The constructor does not meet it. In the build above entry 1 has the shifted hash 1 and
  entry 0 has 0, so the boundary claimed is 1 and the index claimed is \<open>[0, 1, 2]\<close>; the
  constructor, whose \<^verbatim>\<open>ring_index\<close> is 1 at entry 0, pushes 2 and returns \<open>[0, 2, 2]\<close>, and entry
  1 is outside the interval \<open>[2, 2)\<close> of its shard.
\<close>

theorem shard_boundary_off_by_one:
  "Ring_ctor shard_ext two_hosts (1 / 2) 2 2 XX_HASH True =
     Some (Inr (two_shard_ring,
                [(stat_size, 2), (stat_min_hashes_per_host, 1), (stat_max_hashes_per_host, 1)])) \<and>
   shard_index_plain (rshift_to_shard two_shard_ring) (hash (ring two_shard_ring ! 0)) = 0 \<and>
   shard_index_plain (rshift_to_shard two_shard_ring) (hash (ring two_shard_ring ! 1)) = 1 \<and>
   ring_shard two_shard_ring = [0, 2, 2] \<and>
   ring_shard two_shard_ring \<noteq> [0, 1, 2] \<and>
   \<not> (ring_shard two_shard_ring ! 1 \<le> 1 \<and> 1 < ring_shard two_shard_ring ! 2)"
  by (simp add: build_two_shards)
    (simp add: two_shard_ring_def shard_index_plain_shift drop_bit_eq_div)

text \<open>
  Claim C2. The claim is that on a ring built with sharding \<^verbatim>\<open>chooseHost(h, 0)\<close> through the
  shard window returns the host it returns with sharding off. The code does not meet it: on
  the ring built above, for \<open>h\<close> the hash of entry 1, the lookup without sharding returns the
  host \<^verbatim>\<open>a\<close> of entry 1, and the lookup with sharding searches the window \<open>[2, 2]\<close>, wraps and
  returns the host \<^verbatim>\<open>cx\<close> of entry 0.
\<close>

theorem sharded_lookup_differs:
  "Ring_ctor shard_ext two_hosts (1 / 2) 2 2 XX_HASH True =
     Some (Inr (two_shard_ring,
                [(stat_size, 2), (stat_min_hashes_per_host, 1), (stat_max_hashes_per_host, 1)])) \<and>
   window True two_shard_ring 0x6D2CEBF82CDBF7AC = Inr (2, 2) \<and>
   chooseHost True two_shard_ring 0x6D2CEBF82CDBF7AC 0 = Inr (Some ''cx'') \<and>
   chooseHost False two_shard_ring 0x6D2CEBF82CDBF7AC 0 = Inr (Some ''a'')"
  by (simp add: build_two_shards two_shard_ring_sharded two_shard_ring_unsharded)
    (simp add: window_def two_shard_ring_indices two_shard_ring_def)

text \<open>
  Claim C5. The claim is that on a ring built with sharding the shard index \<open>i\<close> of every
  hash has \<open>i + 1\<close> below the length of \<^verbatim>\<open>ring_shard_\<close>, so that both reads are in bounds. The code
  does not meet it: on the ring built above \<^verbatim>\<open>ring_shard_\<close> has 3 elements, the hash \<open>2 ^ 63\<close>
  has the shard index 2, and \<^verbatim>\<open>ring_shard_[shard_index + 1]\<close> reads past the end.
\<close>

theorem shard_index_out_of_bounds:
  "Ring_ctor shard_ext two_hosts (1 / 2) 2 2 XX_HASH True =
     Some (Inr (two_shard_ring,
                [(stat_size, 2), (stat_min_hashes_per_host, 1), (stat_max_hashes_per_host, 1)])) \<and>
   length (ring_shard two_shard_ring) = 3 \<and>
   unat (shard_index (rshift_to_shard two_shard_ring) 0x8000000000000000) + 1 = 3 \<and>
   window True two_shard_ring 0x8000000000000000 = Inl OutOfBounds \<and>
   chooseHost True two_shard_ring 0x8000000000000000 0 = Inl OutOfBounds"
  by (simp add: build_two_shards)
    (simp add: chooseHost_def chooseIndex_def window_def two_shard_ring_def two_shard_ring_indices)

text \<open>
  Claim C7. The claim is that on every built ring that is not empty, for every hash \<open>h\<close> and
  every \<^verbatim>\<open>attempt > 0\<close>, \<^verbatim>\<open>chooseHost(h, attempt)\<close> returns the host of the entry at
  \<open>(p + attempt) mod\<close> the ring size, \<open>p\<close> being the index \<^verbatim>\<open>chooseHost(h, 0)\<close> selects. Lines 148 to
  155 do this whenever the loop selects an index (\<open>retry_offset_of_selected_index\<close>), and
  without sharding it always does (\<open>retry_offset_unsharded\<close>). With sharding the code does not
  meet the claim: on the ring built above, for \<open>h = 2 ^ 63\<close>, the read of \<^verbatim>\<open>ring_shard_\<close> of line 112
  is past the end at every attempt, no index is selected and no host is returned, while the
  lookup without sharding returns the host of entry 0 at attempt 0 and of entry 1 at attempt 1.
\<close>

theorem retry_lookup_out_of_bounds:
  "Ring_ctor shard_ext two_hosts (1 / 2) 2 2 XX_HASH True =
     Some (Inr (two_shard_ring,
                [(stat_size, 2), (stat_min_hashes_per_host, 1), (stat_max_hashes_per_host, 1)])) \<and>
   ring two_shard_ring \<noteq> [] \<and>
   chooseIndex True two_shard_ring 0x8000000000000000 = Inl OutOfBounds \<and>
   chooseHost True two_shard_ring 0x8000000000000000 attempt = Inl OutOfBounds \<and>
   chooseHost False two_shard_ring 0x8000000000000000 0 = Inr (Some ''cx'') \<and>
   chooseHost False two_shard_ring 0x8000000000000000 1 = Inr (Some ''a'')"
proof -
  have i: "chooseIndex True two_shard_ring 0x8000000000000000 = Inl OutOfBounds"
    by (simp add: chooseIndex_def window_def two_shard_ring_def two_shard_ring_indices)
  have n: "ring two_shard_ring \<noteq> []" by (simp add: two_shard_ring_def)
  have c: "clockwise_index (ring two_shard_ring) 0x8000000000000000 = 0"
    by (simp add: two_shard_ring_def clockwise_index_def first_ge_def)
  have u0: "chooseHost False two_shard_ring 0x8000000000000000 0 = Inr (Some ''cx'')"
    by (simp add: chooseHost_def chooseIndex_unsharded [OF two_shard_ring_sorted] c)
      (simp add: two_shard_ring_def)
  have one: "(1 :: u32) \<noteq> 0" by simp
  have u1: "chooseHost False two_shard_ring 0x8000000000000000 1 = Inr (Some ''a'')"
    using retry_offset_unsharded [OF two_shard_ring_sorted n one, of "0x8000000000000000"]
    by (simp add: c) (simp add: two_shard_ring_def)
  have s: "chooseHost True two_shard_ring 0x8000000000000000 attempt = Inl OutOfBounds"
    using n by (simp add: chooseHost_def i)
  from build_two_shards n i s u0 u1 show ?thesis by simp
qed

end
